theory Spec2Isabelle
  imports Complex_Main
begin

section \<open>The Fluent resolver (src/fluent/src/resolver.js, types.js)\<close>

subsection \<open>Strings, numbers, errors\<close>

text \<open>
  A JavaScript string is a sequence of UTF-16 code units and \<open>.length\<close> counts them,
  so a string is a list of code units (natural numbers). ASCII text of the source is
  written with \<open>asc\<close>.
\<close>

type_synonym jsstring = "nat list"

definition asc :: "string \<Rightarrow> jsstring" where
  "asc s = map of_char s"

text \<open>\<open>const MAX_PLACEABLE_LENGTH = 2500; const FSI (U+2068), PDI (U+2069)\<close>\<close>

definition MAX_PLACEABLE_LENGTH :: nat where
  "MAX_PLACEABLE_LENGTH = 2500"

definition FSI :: jsstring where
  "FSI = [8296]"

definition PDI :: jsstring where
  "PDI = [8297]"

text \<open>
  Numbers. \<open>NaN\<close> is kept apart because \<open>===\<close> is false on it; finite values are
  exact rationals (no rounding to binary64, no infinities).
\<close>

datatype jsnum = Finite rat | NaN

fun strict_eq :: "jsnum \<Rightarrow> jsnum \<Rightarrow> bool" where
  "strict_eq (Finite x) (Finite y) = (x = y)"
| "strict_eq _ _ = False"

definition is_digit :: "nat \<Rightarrow> bool" where
  "is_digit c = (48 \<le> c \<and> c \<le> 57)"

fun digits_nat :: "nat \<Rightarrow> jsstring \<Rightarrow> nat" where
  "digits_nat acc [] = acc"
| "digits_nat acc (c # cs) = digits_nat (10 * acc + (c - 48)) cs"

text \<open>
  \<open>parseFloat\<close> on text, for the number-literal grammar of the runtime parser
  (an optional minus sign, digits, an optional fraction); it reads the longest such
  prefix and gives \<open>NaN\<close> when there is none.
\<close>

definition parse_unsigned :: "jsstring \<Rightarrow> jsnum" where
  "parse_unsigned s =
     (let ip = takeWhile is_digit s; r = dropWhile is_digit s in
      if ip = [] then NaN
      else (case r of
              c # r' \<Rightarrow>
                (let fp = takeWhile is_digit r' in
                 if c = 46 \<and> fp \<noteq> []
                 then Finite (of_nat (digits_nat 0 ip) + of_nat (digits_nat 0 fp) / 10 ^ length fp)
                 else Finite (of_nat (digits_nat 0 ip)))
            | [] \<Rightarrow> Finite (of_nat (digits_nat 0 ip))))"

fun negate :: "jsnum \<Rightarrow> jsnum" where
  "negate (Finite x) = Finite (- x)"
| "negate NaN = NaN"

definition parseFloat_text :: "jsstring \<Rightarrow> jsnum" where
  "parseFloat_text s =
     (case s of
        c # r \<Rightarrow> if c = 45 then negate (parse_unsigned r) else parse_unsigned s
      | [] \<Rightarrow> NaN)"

text \<open>What \<open>parseFloat\<close> receives: text (a number literal) or a number (an argument).\<close>

datatype numsrc = Text jsstring | Numeric jsnum

fun parseFloat :: "numsrc \<Rightarrow> jsnum" where
  "parseFloat (Text s) = parseFloat_text s"
| "parseFloat (Numeric x) = x"

datatype error = RangeError jsstring | ReferenceError jsstring | TypeError jsstring

fun is_RangeError :: "error \<Rightarrow> bool" where
  "is_RangeError (RangeError _) = True"
| "is_RangeError _ = False"

text \<open>Decimal text of a natural number, for the template strings of the messages.\<close>

fun dec_digits :: "nat \<Rightarrow> nat \<Rightarrow> jsstring" where
  "dec_digits 0 n = []"
| "dec_digits (Suc f) n = (if n < 10 then [48 + n] else dec_digits f (n div 10) @ [48 + n mod 10])"

definition show_nat :: "nat \<Rightarrow> jsstring" where
  "show_nat n = dec_digits (Suc n) n"

subsection \<open>Runtime values (types.js) and the runtime entry tree\<close>

text \<open>Formatter options (the \<open>opts\<close> object); the empty list is \<open>undefined\<close>.\<close>

type_synonym opts = "(jsstring \<times> jsstring) list"

text \<open>A \<open>Date\<close> is its time value in milliseconds.\<close>

type_synonym jsdate = int

text \<open>
  What \<open>Type\<close> returns: a raw string, an instance of a \<open>FluentType\<close> subclass, a function
  (by its registered name), or the array built by \<open>Pattern\<close>.
\<close>

datatype "value" =
    VStr jsstring
  | FluentNone "jsstring option"
  | FluentNumber jsnum opts
  | FluentDateTime jsdate opts
  | FluentKeyword jsstring
  | VFunc jsstring
  | VParts "value list"

text \<open>
  The nodes \<open>Type\<close> receives. \<open>Val\<close> is an already resolved value that re-enters the
  dispatch (a string element, a \<open>FluentNone\<close>, the result of a fallback). \<open>Arr\<close> is a
  pattern array of the entry tree, with the identity of the array object that the
  \<open>WeakSet\<close> compares. \<open>Variant\<close> and \<open>Message\<close> are the untagged objects
  \<open>{key, val}\<close> and \<open>{val?, attrs?}\<close>. A call holds the name of its \<open>fun\<close> node, a
  reference to an attribute or a variant the name of its \<open>id\<close> node.
\<close>

datatype node =
    Val "value"
  | Arr nat "node list"
  | Kw jsstring
  | Num jsstring
  | Ext jsstring
  | Fun jsstring
  | Call jsstring "node list"
  | Narg jsstring node
  | Ref jsstring
  | Attr jsstring jsstring
  | Var jsstring node
  | Sel "node option" "(node \<times> node) list" nat
  | Variant node node
  | Message "node option" "(jsstring \<times> node) list"
  | Unknown jsstring

abbreviation Str :: "jsstring \<Rightarrow> node" where
  "Str s \<equiv> Val (VStr s)"

text \<open>
  A registered function: its arity and source text (what \<open>valueOf().length\<close> and
  string conversion give for a function object) and what a call does, return a value
  (\<open>Inr\<close>) or throw (\<open>Inl\<close>); or a truthy entry of the registry that is not a
  function.
\<close>

datatype callable =
    Callable nat jsstring "value list \<Rightarrow> (jsstring \<rightharpoonup> value) \<Rightarrow> error + value"
  | NotCallable

text \<open>
  The message context, as far as the resolver reads it. The \<open>Intl\<close> formatters reached
  through \<open>ctx._memoizeIntlObject\<close> and the imported \<open>builtins\<close> table are parameters;
  the formatters are taken to return a string for every input.
\<close>

record ctx =
  messages :: "(jsstring \<times> node) list"
  functions' :: "jsstring \<rightharpoonup> callable"
  builtins :: "jsstring \<rightharpoonup> callable"
  useIsolating :: bool
  numberFormat :: "opts \<Rightarrow> jsnum \<Rightarrow> jsstring"
  dateTimeFormat :: "opts \<Rightarrow> jsdate \<Rightarrow> jsstring"
  pluralSelect :: "opts \<Rightarrow> jsnum \<Rightarrow> jsstring"

text \<open>An external argument, by the tests \<open>ExternalArgument\<close> makes on it.\<close>

datatype jsarg =
    ArgFluent "value"
  | ArgString jsstring
  | ArgNumber jsnum
  | ArgDate jsdate
  | ArgOther jsstring

type_synonym args = "(jsstring \<rightharpoonup> jsarg) option"

text \<open>The mutable part of \<open>env\<close>: the error list and the dirty set.\<close>

record env =
  errors :: "error list"
  dirty :: "nat set"

definition push_error :: "error \<Rightarrow> env \<Rightarrow> env" where
  "push_error e env = env\<lparr>errors := errors env @ [e]\<rparr>"

text \<open>
  A result: \<open>None\<close> when the fuel ran out, \<open>Some (Inl e)\<close> when the JavaScript throws
  \<open>e\<close>, \<open>Some (Inr (x, env))\<close> when it returns \<open>x\<close> and leaves \<open>env\<close>.
\<close>

type_synonym 'a res = "(error + 'a \<times> env) option"

definition ret :: "'a \<Rightarrow> env \<Rightarrow> 'a res" where
  "ret x env = Some (Inr (x, env))"

definition throw :: "error \<Rightarrow> 'a res" where
  "throw e = Some (Inl e)"

fun bind :: "'a res \<Rightarrow> ('a \<Rightarrow> env \<Rightarrow> 'b res) \<Rightarrow> 'b res" where
  "bind None f = None"
| "bind (Some (Inl e)) f = Some (Inl e)"
| "bind (Some (Inr (x, env))) f = f x env"

subsection \<open>types.js\<close>

text \<open>\<open>FluentNone.valueOf\<close>: \<open>this.value || '???'\<close>.\<close>

fun FluentNone_valueOf :: "jsstring option \<Rightarrow> jsstring" where
  "FluentNone_valueOf None = asc ''???''"
| "FluentNone_valueOf (Some s) = (if s = [] then asc ''???'' else s)"

text \<open>\<open>new FluentNumber(value, opts)\<close>: \<open>super(parseFloat(value), opts)\<close>.\<close>

definition new_FluentNumber :: "numsrc \<Rightarrow> opts \<Rightarrow> value" where
  "new_FluentNumber v os = FluentNumber (parseFloat v) os"

text \<open>\<open>part.valueOf(ctx)\<close> as a string, for the values that have one.\<close>

fun valueOf :: "ctx \<Rightarrow> value \<Rightarrow> jsstring" where
  "valueOf c (VStr s) = s"
| "valueOf c (FluentNone h) = FluentNone_valueOf h"
| "valueOf c (FluentNumber x os) = numberFormat c os x"
| "valueOf c (FluentDateTime d os) = dateTimeFormat c os d"
| "valueOf c (FluentKeyword k) = k"
| "valueOf c (VFunc f) =
     (case (case functions' c f of Some x \<Rightarrow> Some x | None \<Rightarrow> builtins c f) of
        Some (Callable n src g) \<Rightarrow> src | _ \<Rightarrow> [])"
| "valueOf c (VParts ps) = concat (map (valueOf c) ps)"

text \<open>
  \<open>part.valueOf(ctx).length\<close>: the length of the string; of a function its arity; of
  an array its number of elements.
\<close>

fun valueOf_length :: "ctx \<Rightarrow> value \<Rightarrow> nat" where
  "valueOf_length c (VFunc f) =
     (case (case functions' c f of Some x \<Rightarrow> Some x | None \<Rightarrow> builtins c f) of
        Some (Callable n src g) \<Rightarrow> n | _ \<Rightarrow> 0)"
| "valueOf_length c (VParts ps) = length ps"
| "valueOf_length c v = length (valueOf c v)"

text \<open>\<open>FluentNumber.match\<close> and \<open>FluentKeyword.match\<close>.\<close>

fun FluentNumber_match :: "ctx \<Rightarrow> jsnum \<Rightarrow> value \<Rightarrow> bool" where
  "FluentNumber_match c x (FluentNumber y os) = strict_eq x y"
| "FluentNumber_match c x _ = False"

fun FluentKeyword_match :: "ctx \<Rightarrow> jsstring \<Rightarrow> value \<Rightarrow> bool" where
  "FluentKeyword_match c k (FluentKeyword k') = (k = k')"
| "FluentKeyword_match c k (VStr s) = (k = s)"
| "FluentKeyword_match c k (FluentNumber x os) = (k = pluralSelect c os x)"
| "FluentKeyword_match c k _ = False"

text \<open>
  \<open>key.match(ctx, other)\<close>: only \<open>FluentNumber\<close> and \<open>FluentKeyword\<close> have the method;
  on any other value the call throws a \<open>TypeError\<close>.
\<close>

fun match :: "ctx \<Rightarrow> value \<Rightarrow> value \<Rightarrow> error + bool" where
  "match c (FluentNumber x os) other = Inr (FluentNumber_match c x other)"
| "match c (FluentKeyword k) other = Inr (FluentKeyword_match c k other)"
| "match c _ other = Inl (TypeError (asc ''match is not a function''))"

subsection \<open>resolver.js: the helpers that do not recurse\<close>

text \<open>\<open>PlaceableLength(env, parts)\<close>\<close>

definition PlaceableLength :: "ctx \<Rightarrow> value list \<Rightarrow> nat" where
  "PlaceableLength c parts = foldl (\<lambda>sum part. sum + valueOf_length c part) 0 parts"

text \<open>
  \<open>DefaultMember(env, members, def)\<close>: \<open>members[def]\<close> is a variant object when
  \<open>def\<close> is an index of the array and \<open>undefined\<close> otherwise.
\<close>

definition DefaultMember :: "env \<Rightarrow> (node \<times> node) list \<Rightarrow> nat \<Rightarrow> node \<times> env" where
  "DefaultMember env members def =
     (if def < length members
      then (Variant (fst (members ! def)) (snd (members ! def)), env)
      else (Val (FluentNone None), push_error (RangeError (asc ''No default'')) env))"

text \<open>
  \<open>MessageReference(env, {name})\<close>: \<open>!message\<close> holds for a missing entry and for
  an entry that is the empty string.
\<close>

definition MessageReference :: "ctx \<Rightarrow> env \<Rightarrow> jsstring \<Rightarrow> node \<times> env" where
  "MessageReference c env name =
     (case map_of (messages c) name of
        None \<Rightarrow>
          (Val (FluentNone (Some name)),
           push_error (ReferenceError (asc ''Unknown message: '' @ name)) env)
      | Some message \<Rightarrow>
          if message = Str []
          then (Val (FluentNone (Some name)),
                push_error (ReferenceError (asc ''Unknown message: '' @ name)) env)
          else (message, env))"

text \<open>\<open>ExternalArgument(env, {name})\<close>\<close>

definition ExternalArgument :: "args \<Rightarrow> env \<Rightarrow> jsstring \<Rightarrow> value \<times> env" where
  "ExternalArgument as env name =
     (case (case as of None \<Rightarrow> None | Some bag \<Rightarrow> bag name) of
        None \<Rightarrow>
          (FluentNone (Some name),
           push_error (ReferenceError (asc ''Unknown external: '' @ name)) env)
      | Some (ArgFluent v) \<Rightarrow> (v, env)
      | Some (ArgString s) \<Rightarrow> (VStr s, env)
      | Some (ArgNumber x) \<Rightarrow> (new_FluentNumber (Numeric x) [], env)
      | Some (ArgDate d) \<Rightarrow> (FluentDateTime d [], env)
      | Some (ArgOther ty) \<Rightarrow>
          (FluentNone (Some name),
           push_error
             (TypeError (asc ''Unsupported external type: '' @ name @ asc '', '' @ ty)) env))"

text \<open>\<open>functions[name] || builtins[name]\<close>\<close>

definition lookup_func :: "ctx \<Rightarrow> jsstring \<Rightarrow> callable option" where
  "lookup_func c name = (case functions' c name of Some x \<Rightarrow> Some x | None \<Rightarrow> builtins c name)"

text \<open>\<open>FunctionReference(env, {name})\<close>\<close>

definition FunctionReference :: "ctx \<Rightarrow> env \<Rightarrow> jsstring \<Rightarrow> value \<times> env" where
  "FunctionReference c env name =
     (case lookup_func c name of
        None \<Rightarrow>
          (FluentNone (Some (name @ asc ''()'')),
           push_error (ReferenceError (asc ''Unknown function: '' @ name @ asc ''()'')) env)
      | Some NotCallable \<Rightarrow>
          (FluentNone (Some (name @ asc ''()'')),
           push_error
             (TypeError (asc ''Function '' @ name @ asc ''() is not callable'')) env)
      | Some (Callable n src g) \<Rightarrow> (VFunc name, env))"

text \<open>\<open>callee(posargs, keyargs)\<close>, for the function \<open>FunctionReference\<close> returned.\<close>

definition call_func :: "ctx \<Rightarrow> jsstring \<Rightarrow> value list \<Rightarrow> (jsstring \<rightharpoonup> value) \<Rightarrow> error + value" where
  "call_func c name posargs keyargs =
     (case lookup_func c name of
        Some (Callable n src g) \<Rightarrow> g posargs keyargs
      | _ \<Rightarrow> Inl (TypeError (asc ''callee is not a function'')))"

text \<open>
  The body of the loop of \<open>Pattern\<close> after \<open>const part = Type(env, elem)\<close>
  (lines 370-394): what one placeable appends to \<open>result\<close>.
\<close>

definition too_long :: "nat \<Rightarrow> error" where
  "too_long len =
     RangeError (asc ''Too many characters in placeable ('' @ show_nat len @
                 asc '', max allowed is '' @ show_nat MAX_PLACEABLE_LENGTH @ asc '')'')"

definition place_parts :: "ctx \<Rightarrow> env \<Rightarrow> value \<Rightarrow> value list \<times> env" where
  "place_parts c env part =
     (case part of
        VParts ps \<Rightarrow>
          (let len = PlaceableLength c ps in
           if len > MAX_PLACEABLE_LENGTH
           then ([FluentNone None], push_error (too_long len) env)
           else (ps, env))
      | _ \<Rightarrow> ([part], env))"

definition place :: "ctx \<Rightarrow> env \<Rightarrow> value \<Rightarrow> value list \<Rightarrow> value list \<times> env" where
  "place c env part result =
     (let r1 = (if useIsolating c then result @ [VStr FSI] else result);
          (ps, env') = place_parts c env part;
          r2 = r1 @ ps
      in (if useIsolating c then r2 @ [VStr PDI] else r2, env'))"

text \<open>\<open>isVariantList(message.val)\<close>, with the \<open>.val\<close> of a node.\<close>

fun val_of :: "node \<Rightarrow> node option" where
  "val_of (Message v as) = v"
| "val_of (Variant k v) = Some v"
| "val_of (Narg n v) = Some v"
| "val_of (Num s) = Some (Str s)"
| "val_of _ = None"

fun attrs_of :: "node \<Rightarrow> (jsstring \<times> node) list" where
  "attrs_of (Message v as) = as"
| "attrs_of _ = []"

text \<open>
  \<open>Inr (Some vars)\<close> for a variant list with those variants, \<open>Inr None\<close> for
  anything else; reading \<open>node[0].type\<close> of an empty array throws.
\<close>

fun isVariantList :: "node option \<Rightarrow> error + (node \<times> node) list option" where
  "isVariantList (Some (Arr pid [])) = Inl (TypeError (asc ''node[0] is undefined''))"
| "isVariantList (Some (Val (VParts []))) = Inl (TypeError (asc ''node[0] is undefined''))"
| "isVariantList (Some (Arr pid (Sel None vars def # es))) = Inr (Some vars)"
| "isVariantList _ = Inr None"

fun is_FluentNone :: "node \<Rightarrow> bool" where
  "is_FluentNone (Val (FluentNone h)) = True"
| "is_FluentNone _ = False"

fun keyCanMatch :: "value \<Rightarrow> bool" where
  "keyCanMatch (FluentNumber x os) = True"
| "keyCanMatch (FluentKeyword k) = True"
| "keyCanMatch _ = False"

subsection \<open>resolver.js: the recursive functions\<close>

text \<open>
  The functions of the resolver call each other only through \<open>Type\<close>, and \<open>Type\<close>
  comes back to itself through the message store, so the recursion is not structural.
  Each function below takes the dispatcher it calls as its first argument \<open>T\<close>
  (where the source writes \<open>Type(env, x)\<close> the model writes \<open>T env x\<close>), and \<open>Type\<close>
  ties the knot by recursion on a fuel argument: \<open>None\<close> is "the fuel ran out".

  \<open>Pattern\<close> takes the identity of the array: \<open>Some i\<close> for a pattern of the entry
  tree, \<open>None\<close> for an array that an earlier \<open>Pattern\<close> call allocated as its \<open>result\<close>
  (a fresh object: it is not in the dirty set when it is entered, and adding and
  deleting it leaves the entry-tree patterns of the set as they were).
\<close>

type_synonym dispatcher = "env \<Rightarrow> node \<Rightarrow> value res"

text \<open>The loop of \<open>Pattern\<close> (lines 362-395).\<close>

fun PatternLoop :: "dispatcher \<Rightarrow> ctx \<Rightarrow> env \<Rightarrow> node list \<Rightarrow> value list \<Rightarrow> (value list) res" where
  "PatternLoop T c env [] result = ret result env"
| "PatternLoop T c env (elem # rest) result =
     (case elem of
        Val (VStr s) \<Rightarrow> PatternLoop T c env rest (result @ [VStr s])
      | _ \<Rightarrow>
          bind (T env elem)
            (\<lambda>part env'. case place c env' part result of
                            (result', env'') \<Rightarrow> PatternLoop T c env'' rest result'))"

text \<open>\<open>Pattern(env, ptn)\<close>\<close>

definition Pattern :: "dispatcher \<Rightarrow> ctx \<Rightarrow> env \<Rightarrow> nat option \<Rightarrow> node list \<Rightarrow> value res" where
  "Pattern T c env pid ptn =
     (case pid of
        Some i \<Rightarrow>
          if i \<in> dirty env
          then ret (FluentNone None) (push_error (RangeError (asc ''Cyclic reference'')) env)
          else bind (PatternLoop T c (env\<lparr>dirty := insert i (dirty env)\<rparr>) ptn [])
                 (\<lambda>result env'. ret (VParts result) (env'\<lparr>dirty := dirty env' - {i}\<rparr>))
      | None \<Rightarrow>
          bind (PatternLoop T c env ptn []) (\<lambda>result env'. ret (VParts result) env'))"

text \<open>The loop of \<open>VariantExpression\<close> (lines 121-126).\<close>

fun VariantLoop :: "dispatcher \<Rightarrow> ctx \<Rightarrow> env \<Rightarrow> value \<Rightarrow> (node \<times> node) list \<Rightarrow> (node option) res" where
  "VariantLoop T c env keyword [] = ret None env"
| "VariantLoop T c env keyword (variant # rest) =
     bind (T env (fst variant))
       (\<lambda>variantKey env'.
          case match c keyword variantKey of
            Inl e \<Rightarrow> throw e
          | Inr b \<Rightarrow>
              if b then ret (Some (Variant (fst variant) (snd variant))) env'
              else VariantLoop T c env' keyword rest)"

text \<open>
  The end of \<open>VariantExpression\<close> (lines 129-130) and of \<open>AttributeExpression\<close>
  (lines 154-156): push the error, return \<open>Type(env, message)\<close>.
\<close>

definition fallback :: "dispatcher \<Rightarrow> error \<Rightarrow> env \<Rightarrow> node \<Rightarrow> node res" where
  "fallback T e env message = bind (T (push_error e env) message) (\<lambda>v env'. ret (Val v) env')"

text \<open>\<open>VariantExpression(env, {id, key})\<close>\<close>

definition VariantExpression :: "dispatcher \<Rightarrow> ctx \<Rightarrow> env \<Rightarrow> jsstring \<Rightarrow> node \<Rightarrow> node res" where
  "VariantExpression T c env name key =
     (case MessageReference c env name of
        (message, env1) \<Rightarrow>
          if is_FluentNone message then ret message env1
          else
            bind (T env1 key)
              (\<lambda>keyword env2.
                 case isVariantList (val_of message) of
                   Inl e \<Rightarrow> throw e
                 | Inr None \<Rightarrow>
                     fallback T (ReferenceError (asc ''Unknown variant: '' @ valueOf c keyword))
                       env2 message
                 | Inr (Some vars) \<Rightarrow>
                     bind (VariantLoop T c env2 keyword vars)
                       (\<lambda>found env3.
                          case found of
                            Some variant \<Rightarrow> ret variant env3
                          | None \<Rightarrow>
                              fallback T
                                (ReferenceError (asc ''Unknown variant: '' @ valueOf c keyword))
                                env3 message)))"

text \<open>\<open>AttributeExpression(env, {id, name})\<close>\<close>

definition AttributeExpression :: "dispatcher \<Rightarrow> ctx \<Rightarrow> env \<Rightarrow> jsstring \<Rightarrow> jsstring \<Rightarrow> node res" where
  "AttributeExpression T c env name a =
     (case MessageReference c env name of
        (message, env1) \<Rightarrow>
          if is_FluentNone message then ret message env1
          else
            (case map_of (attrs_of message) a of
               Some attr \<Rightarrow> ret attr env1
             | None \<Rightarrow>
                 fallback T (ReferenceError (asc ''Unknown attribute: '' @ a)) env1 message))"

text \<open>The loop of \<open>SelectExpression\<close> (lines 175-184).\<close>

fun SelectLoop :: "dispatcher \<Rightarrow> ctx \<Rightarrow> env \<Rightarrow> value \<Rightarrow> (node \<times> node) list \<Rightarrow> (node option) res" where
  "SelectLoop T c env selector [] = ret None env"
| "SelectLoop T c env selector (variant # rest) =
     bind (T env (fst variant))
       (\<lambda>key env'.
          if keyCanMatch key
          then (case match c key selector of
                  Inl e \<Rightarrow> throw e
                | Inr b \<Rightarrow>
                    if b then ret (Some (Variant (fst variant) (snd variant))) env'
                    else SelectLoop T c env' selector rest)
          else SelectLoop T c env' selector rest)"

text \<open>\<open>SelectExpression(env, {exp, vars, def})\<close>\<close>

definition SelectExpression :: "dispatcher \<Rightarrow> ctx \<Rightarrow> env \<Rightarrow> node option \<Rightarrow> (node \<times> node) list \<Rightarrow> nat \<Rightarrow> node res" where
  "SelectExpression T c env exp' vars def =
     (case exp' of
        None \<Rightarrow> (case DefaultMember env vars def of (m, env') \<Rightarrow> ret m env')
      | Some e \<Rightarrow>
          bind (T env e)
            (\<lambda>selector env1.
               if is_FluentNone (Val selector)
               then (case DefaultMember env1 vars def of (m, env') \<Rightarrow> ret m env')
               else
                 bind (SelectLoop T c env1 selector vars)
                   (\<lambda>found env2.
                      case found of
                        Some variant \<Rightarrow> ret variant env2
                      | None \<Rightarrow> (case DefaultMember env2 vars def of (m, env') \<Rightarrow> ret m env'))))"

text \<open>The loop of \<open>CallExpression\<close> (lines 333-339).\<close>

fun CallLoop :: "dispatcher \<Rightarrow> env \<Rightarrow> node list \<Rightarrow> value list \<Rightarrow> (jsstring \<rightharpoonup> value)
                  \<Rightarrow> (value list \<times> (jsstring \<rightharpoonup> value)) res" where
  "CallLoop T env [] posargs keyargs = ret (posargs, keyargs) env"
| "CallLoop T env (arg # rest) posargs keyargs =
     (case arg of
        Narg name v \<Rightarrow>
          bind (T env v) (\<lambda>x env'. CallLoop T env' rest posargs (keyargs(name \<mapsto> x)))
      | _ \<Rightarrow>
          bind (T env arg) (\<lambda>x env'. CallLoop T env' rest (posargs @ [x]) keyargs))"

text \<open>\<open>CallExpression(env, {fun, args})\<close>\<close>

definition CallExpression :: "dispatcher \<Rightarrow> ctx \<Rightarrow> env \<Rightarrow> jsstring \<Rightarrow> node list \<Rightarrow> value res" where
  "CallExpression T c env f cargs =
     (case FunctionReference c env f of
        (callee, env1) \<Rightarrow>
          (case callee of
             FluentNone h \<Rightarrow> ret callee env1
           | _ \<Rightarrow>
               bind (CallLoop T env1 cargs [] Map.empty)
                 (\<lambda>pk env2. case call_func c f (fst pk) (snd pk) of
                               Inl e \<Rightarrow> throw e
                             | Inr v \<Rightarrow> ret v env2)))"

text \<open>The body of \<open>Type(env, expr)\<close>.\<close>

definition Type_body :: "dispatcher \<Rightarrow> ctx \<Rightarrow> args \<Rightarrow> env \<Rightarrow> node \<Rightarrow> value res" where
  "Type_body T c as env expr =
     (case expr of
        Val v \<Rightarrow>
          (case v of
             VStr s \<Rightarrow> ret v env
           | FluentNone h \<Rightarrow> ret v env
           | VParts ps \<Rightarrow> Pattern T c env None (map Val ps)
           | _ \<Rightarrow> ret (FluentNone None) (push_error (RangeError (asc ''No value'')) env))
      | Arr pid elems \<Rightarrow> Pattern T c env (Some pid) elems
      | Kw name \<Rightarrow> ret (FluentKeyword name) env
      | Num val \<Rightarrow> ret (new_FluentNumber (Text val) []) env
      | Ext name \<Rightarrow> (case ExternalArgument as env name of (v, env') \<Rightarrow> ret v env')
      | Fun name \<Rightarrow> (case FunctionReference c env name of (v, env') \<Rightarrow> ret v env')
      | Call f cargs \<Rightarrow> CallExpression T c env f cargs
      | Ref name \<Rightarrow> (case MessageReference c env name of (message, env') \<Rightarrow> T env' message)
      | Attr name a \<Rightarrow> bind (AttributeExpression T c env name a) (\<lambda>x env'. T env' x)
      | Var name key \<Rightarrow> bind (VariantExpression T c env name key) (\<lambda>x env'. T env' x)
      | Sel exp' vars def \<Rightarrow> bind (SelectExpression T c env exp' vars def) (\<lambda>x env'. T env' x)
      | Variant k v \<Rightarrow> T env v
      | Message (Some v) ats \<Rightarrow> T env v
      | Message None ats \<Rightarrow>
          ret (FluentNone None) (push_error (RangeError (asc ''No value'')) env)
      | Narg name v \<Rightarrow> ret (FluentNone None) env
      | Unknown ty \<Rightarrow> ret (FluentNone None) env)"

text \<open>\<open>Type(env, expr)\<close>, with fuel: every re-entry of \<open>Type\<close> uses one unit.\<close>

fun Type :: "nat \<Rightarrow> ctx \<Rightarrow> args \<Rightarrow> env \<Rightarrow> node \<Rightarrow> value res" where
  "Type 0 c as env expr = None"
| "Type (Suc n) c as env expr = Type_body (Type n c as) c as env expr"

declare Type.simps [simp del]

text \<open>\<open>resolve(ctx, args, message, errors = [])\<close>: a new \<open>env\<close> with an empty dirty set.\<close>

definition resolve :: "nat \<Rightarrow> ctx \<Rightarrow> args \<Rightarrow> node \<Rightarrow> error list \<Rightarrow> value res" where
  "resolve n c as message errs = Type n c as \<lparr>errors = errs, dirty = {}\<rparr> message"

subsection \<open>The caller, and a context for the examples\<close>

text \<open>
  Modelled from the spec: \<open>MessageContext.format\<close> (context.js is not among the
  sources). A simple string is returned as it is; an entry with no value gives
  \<open>null\<close> (\<open>None\<close>) and no error; otherwise the entry is resolved and the parts are
  joined by calling \<open>valueOf(ctx)\<close> on each and concatenating.
\<close>

definition format :: "nat \<Rightarrow> ctx \<Rightarrow> args \<Rightarrow> node \<Rightarrow> error list \<Rightarrow> (jsstring option) res" where
  "format n c as message errs =
     (case message of
        Val (VStr s) \<Rightarrow> ret (Some s) \<lparr>errors = errs, dirty = {}\<rparr>
      | Message None ats \<Rightarrow> ret None \<lparr>errors = errs, dirty = {}\<rparr>
      | _ \<Rightarrow> bind (resolve n c as message errs) (\<lambda>v env. ret (Some (valueOf c v)) env))"

text \<open>
  An instance of the parameters for the examples: the English cardinal plural rule
  (\<open>one\<close> for 1, \<open>other\<close> otherwise), no functions, constant formatters.
\<close>

fun plural_en :: "opts \<Rightarrow> jsnum \<Rightarrow> jsstring" where
  "plural_en os (Finite x) = (if x = 1 then asc ''one'' else asc ''other'')"
| "plural_en os NaN = asc ''other''"

definition en_US :: "(jsstring \<times> node) list \<Rightarrow> bool \<Rightarrow> ctx" where
  "en_US ms isolating =
     \<lparr>messages = ms, functions' = Map.empty, builtins = Map.empty, useIsolating = isolating,
      numberFormat = (\<lambda>os x. asc ''<number>''), dateTimeFormat = (\<lambda>os d. asc ''<date>''),
      pluralSelect = plural_en\<rparr>"


text \<open>
  A select on the number literal \<open>1\<close> whose first key is the keyword \<open>1\<close>, the text of
  the number; the default is the second variant.
\<close>

definition sel_exact :: node where
  "sel_exact =
     Sel (Some (Num (asc ''1'')))
       [(Kw (asc ''1''), Str (asc ''A'')), (Kw (asc ''many''), Str (asc ''B''))] 1"

text \<open>The cyclic pair of the tests: \<open>foo = { bar }\<close>, \<open>bar = { foo }\<close>.\<close>

definition foo_cyclic :: node where
  "foo_cyclic = Message (Some (Arr 1 [Ref (asc ''bar'')])) []"

definition bar_cyclic :: node where
  "bar_cyclic = Message (Some (Arr 2 [Ref (asc ''foo'')])) []"

definition cyclic_pair :: ctx where
  "cyclic_pair = en_US [(asc ''foo'', foo_cyclic), (asc ''bar'', bar_cyclic)] False"

subsection \<open>Notions used to state the properties\<close>

text \<open>What one placeable with the parts \<open>ps\<close> adds to the result: the parts, between the
  isolation marks when \<open>useIsolating\<close> is set.\<close>

definition isolate :: "ctx \<Rightarrow> value list \<Rightarrow> value list" where
  "isolate c ps = (if useIsolating c then [VStr FSI] @ ps @ [VStr PDI] else ps)"

text \<open>The values whose \<open>valueOf\<close> is a string (not a function, not an array).\<close>

fun is_text :: "value \<Rightarrow> bool" where
  "is_text (VFunc f) = False"
| "is_text (VParts ps) = False"
| "is_text _ = True"

text \<open>A string of 2501 characters, and a bag that holds it as the argument \<open>x\<close>.\<close>

definition long_text :: jsstring where
  "long_text = replicate 2501 97"

definition long_bag :: "jsstring \<rightharpoonup> jsarg" where
  "long_bag = [asc ''x'' \<mapsto> ArgString long_text]"

text \<open>A bag with the string argument \<open>x\<close>.\<close>

definition arg_bag :: "jsstring \<rightharpoonup> jsarg" where
  "arg_bag = [asc ''x'' \<mapsto> ArgString (asc ''X'')]"





text \<open>
  A message whose value is a pattern, \<open>foo = Foo { $x }\<close>, and a pattern with two
  references to it, \<open>{ foo } { foo }\<close>.
\<close>

definition foo_pattern :: node where
  "foo_pattern = Message (Some (Arr 1 [Str (asc ''Foo ''), Ext (asc ''x'')])) []"

definition siblings :: node where
  "siblings = Arr 2 [Ref (asc ''foo''), Str (asc '' ''), Ref (asc ''foo'')]"

text \<open>A dispatcher that returns with the dirty set it was called with.\<close>

definition keeps_dirty :: "dispatcher \<Rightarrow> bool" where
  "keeps_dirty T = (\<forall>env x v env'. T env x = Some (Inr (v, env')) \<longrightarrow> dirty env' = dirty env)"

text \<open>
  An environment with earlier errors \<open>es\<close> in front of its error list, a result with
  them in front of the errors of the environment it returns, and a dispatcher that
  does not look at the error list: called with earlier errors, it does what it does
  without them.
\<close>

definition pre :: "error list \<Rightarrow> env \<Rightarrow> env" where
  "pre es env = env\<lparr>errors := es @ errors env\<rparr>"

fun lift :: "error list \<Rightarrow> 'a res \<Rightarrow> 'a res" where
  "lift es None = None"
| "lift es (Some (Inl e)) = Some (Inl e)"
| "lift es (Some (Inr (x, env))) = Some (Inr (x, pre es env))"


section \<open>Properties\<close>

subsection \<open>External arguments\<close>



subsection \<open>Numbers\<close>


lemma parseFloat_text_1: "parseFloat_text (asc ''1'') = Finite 1"
  by (simp add: parseFloat_text_def parse_unsigned_def asc_def is_digit_def)




subsection \<open>Keyword keys against a number selector\<close>

text \<open>
  C4, as stated, fails in its second half: a keyword key that is exactly the text of
  the number does not match it. With the English plural rule the category of 1 is
  \<open>one\<close>, so the keyword \<open>1\<close> does not match the number 1, and the select on \<open>1\<close> with
  the keys \<open>1\<close> and \<open>many\<close> falls through to its default, the second variant.
\<close>

theorem Keyword_exact_match_counterexample:
  "\<not> FluentKeyword_match (en_US [] False) (asc ''1'') (new_FluentNumber (Text (asc ''1'')) []) \<and>
   resolve 3 (en_US [] False) None sel_exact [] =
     ret (VStr (asc ''B'')) \<lparr>errors = [], dirty = {}\<rparr>"
  by (simp add: resolve_def sel_exact_def en_US_def eval_nat_numeral Type.simps Type_body_def
        SelectExpression_def DefaultMember_def ret_def new_FluentNumber_def parseFloat_text_1)
     (simp add: asc_def)

text \<open>
  C4, amended. When the selector is \<open>Number(x)\<close> and a variant key is \<open>Keyword(k)\<close>,
  the key matches exactly when \<open>k\<close> is the plural category that the context's
  plural-rules formatter selects for \<open>x\<close> (with the options of the number): the loop
  of the select returns that variant when it does and goes on to the next variant
  when it does not.
\<close>

theorem Keyword_matches_plural_category:
  "match c (FluentKeyword k) (FluentNumber x os) = Inr (k = pluralSelect c os x) \<and>
   SelectLoop (Type (Suc n) c as) c env (FluentNumber x os) ((Kw k, v) # rest) =
     (if k = pluralSelect c os x then ret (Some (Variant (Kw k) v)) env
      else SelectLoop (Type (Suc n) c as) c env (FluentNumber x os) rest)"
  by (simp add: Type.simps Type_body_def ret_def)

theorem Keyword_matches_plural_category_witness:
  "match (en_US [] False) (FluentKeyword (asc ''one'')) (FluentNumber (Finite 1) []) = Inr True \<and>
   SelectLoop (Type 1 (en_US [] False) None) (en_US [] False) \<lparr>errors = [], dirty = {}\<rparr>
       (FluentNumber (Finite 1) []) [(Kw (asc ''one''), Str (asc ''A''))] =
     ret (Some (Variant (Kw (asc ''one'')) (Str (asc ''A'')))) \<lparr>errors = [], dirty = {}\<rparr> \<and>
   SelectLoop (Type 1 (en_US [] False) None) (en_US [] False) \<lparr>errors = [], dirty = {}\<rparr>
       (FluentNumber (Finite 2) []) [(Kw (asc ''one''), Str (asc ''A''))] =
     ret None \<lparr>errors = [], dirty = {}\<rparr>"
  using Keyword_matches_plural_category [of "en_US [] False" "asc ''one''" "Finite 1" "[]" 0 None
      "\<lparr>errors = [], dirty = {}\<rparr>" "Str (asc ''A'')" "[]"]
    Keyword_matches_plural_category [of "en_US [] False" "asc ''one''" "Finite 2" "[]" 0 None
      "\<lparr>errors = [], dirty = {}\<rparr>" "Str (asc ''A'')" "[]"]
  by (simp add: en_US_def) (simp add: asc_def)

subsection \<open>Cycles\<close>

lemma foo_neq_bar [simp]: "asc ''foo'' \<noteq> asc ''bar''" "asc ''bar'' \<noteq> asc ''foo''"
  by (simp_all add: asc_def)

text \<open>
  C3. When the pattern being entered is already in the dirty set, the resolver
  appends the range error "Cyclic reference" and returns \<open>None\<close>, and the set is left
  as it was. Formatting \<open>foo\<close> of the cyclic pair gives the string \<open>???\<close> and exactly
  one error, that range error, with any fuel from 8 on.
\<close>

theorem Cyclic_reference:
  "(i \<in> dirty env \<longrightarrow>
      Type (Suc n) c as env (Arr i ptn) =
        ret (FluentNone None)
          (env\<lparr>errors := errors env @ [RangeError (asc ''Cyclic reference'')]\<rparr>)) \<and>
   format (8 + m) cyclic_pair None foo_cyclic [] =
     ret (Some (asc ''???'')) \<lparr>errors = [RangeError (asc ''Cyclic reference'')], dirty = {}\<rparr>"
proof
  show "i \<in> dirty env \<longrightarrow>
      Type (Suc n) c as env (Arr i ptn) =
        ret (FluentNone None)
          (env\<lparr>errors := errors env @ [RangeError (asc ''Cyclic reference'')]\<rparr>)"
    by (simp add: Type.simps Type_body_def Pattern_def push_error_def)
  have fuel: "8 + m = Suc (Suc (Suc (Suc (Suc (Suc (Suc (Suc m)))))))"
    by simp
  show "format (8 + m) cyclic_pair None foo_cyclic [] =
     ret (Some (asc ''???'')) \<lparr>errors = [RangeError (asc ''Cyclic reference'')], dirty = {}\<rparr>"
    unfolding fuel
    by (simp add: format_def resolve_def foo_cyclic_def bar_cyclic_def cyclic_pair_def en_US_def
          Type.simps Type_body_def Pattern_def MessageReference_def ret_def place_def
          place_parts_def PlaceableLength_def push_error_def MAX_PLACEABLE_LENGTH_def)
       (simp add: asc_def ret_def)
qed

theorem Cyclic_reference_witness:
  "(1::nat) \<in> dirty \<lparr>errors = [], dirty = {1}\<rparr> \<and>
   Type 1 cyclic_pair None \<lparr>errors = [], dirty = {1}\<rparr> (Arr 1 [Ref (asc ''bar'')]) =
     ret (FluentNone None) \<lparr>errors = [RangeError (asc ''Cyclic reference'')], dirty = {1}\<rparr> \<and>
   format 8 cyclic_pair None foo_cyclic [] =
     ret (Some (asc ''???'')) \<lparr>errors = [RangeError (asc ''Cyclic reference'')], dirty = {}\<rparr>"
  using Cyclic_reference [where i = 1 and env = "\<lparr>errors = [], dirty = {1}\<rparr>" and n = 0
      and c = cyclic_pair and as = None and ptn = "[Ref (asc ''bar'')]" and m = 0]
  by simp

subsection \<open>The length of a placeable\<close>

lemma length_long_text: "length long_text = 2501"
  by (simp add: long_text_def)

lemma PlaceableLength_text:
  "\<forall>p\<in>set ps. is_text p \<Longrightarrow> foldl (\<lambda>sum part. sum + valueOf_length c part) k ps
     = k + length (concat (map (valueOf c) ps))"
proof (induction ps arbitrary: k)
  case Nil
  then show ?case by simp
next
  case (Cons p ps)
  then have "valueOf_length c p = length (valueOf c p)"
    by (cases p) simp_all
  with Cons show ?case by simp
qed

text \<open>
  C1, as stated, fails: the pattern \<open>{ $x }\<close> with a string argument of 2501
  characters resolves to that string, 2501 characters from one placeable, and no
  error is recorded.
\<close>

theorem Placeable_unbounded_counterexample:
  "resolve 3 (en_US [] False) (Some long_bag) (Arr 1 [Ext (asc ''x'')]) [] =
     ret (VParts [VStr long_text]) \<lparr>errors = [], dirty = {}\<rparr> \<and>
   length (valueOf (en_US [] False) (VParts [VStr long_text])) = 2501 \<and>
   MAX_PLACEABLE_LENGTH < 2501"
proof -
  have fuel: "(3::nat) = Suc (Suc (Suc 0))"
    by simp
  have "resolve 3 (en_US [] False) (Some long_bag) (Arr 1 [Ext (asc ''x'')]) [] =
     ret (VParts [VStr long_text]) \<lparr>errors = [], dirty = {}\<rparr>"
    unfolding fuel
    by (simp add: resolve_def Type.simps Type_body_def Pattern_def ExternalArgument_def long_bag_def
          place_def place_parts_def en_US_def ret_def)
  then show ?thesis
    by (simp add: length_long_text MAX_PLACEABLE_LENGTH_def)
qed

text \<open>
  C1, amended. The bound applies to a placeable that resolves to the parts of a
  nested pattern: when their flattened length (the sum of \<open>valueOf(ctx).length\<close>)
  exceeds 2500, a range error is appended and a single \<open>None\<close>, which stringifies to
  \<open>???\<close>, is pushed in their place; otherwise the parts are spliced in and, when all of
  them are text, they contribute at most 2500 characters. A placeable that resolves to
  any other value is pushed as it is, whatever its length.
\<close>

theorem Placeable_length_bound:
  "(MAX_PLACEABLE_LENGTH < PlaceableLength c ps \<longrightarrow>
      place c env (VParts ps) result =
        (result @ isolate c [FluentNone None],
         env\<lparr>errors := errors env @ [too_long (PlaceableLength c ps)]\<rparr>) \<and>
      is_RangeError (too_long (PlaceableLength c ps)) \<and>
      valueOf c (FluentNone None) = asc ''???'') \<and>
   (PlaceableLength c ps \<le> MAX_PLACEABLE_LENGTH \<longrightarrow>
      place c env (VParts ps) result = (result @ isolate c ps, env) \<and>
      ((\<forall>p\<in>set ps. is_text p) \<longrightarrow> length (valueOf c (VParts ps)) \<le> 2500)) \<and>
   ((\<forall>qs. part \<noteq> VParts qs) \<longrightarrow> place c env part result = (result @ isolate c [part], env))"
proof (intro conjI impI)
  assume "MAX_PLACEABLE_LENGTH < PlaceableLength c ps"
  then show "place c env (VParts ps) result =
        (result @ isolate c [FluentNone None],
         env\<lparr>errors := errors env @ [too_long (PlaceableLength c ps)]\<rparr>)"
    by (simp add: place_def place_parts_def isolate_def push_error_def)
next
  show "is_RangeError (too_long (PlaceableLength c ps))"
    by (simp add: too_long_def)
next
  show "valueOf c (FluentNone None) = asc ''???''"
    by simp
next
  assume "PlaceableLength c ps \<le> MAX_PLACEABLE_LENGTH"
  then show "place c env (VParts ps) result = (result @ isolate c ps, env)"
    by (simp add: place_def place_parts_def isolate_def)
next
  assume le: "PlaceableLength c ps \<le> MAX_PLACEABLE_LENGTH" and alltext: "\<forall>p\<in>set ps. is_text p"
  from PlaceableLength_text [OF alltext, of c 0] le
  show "length (valueOf c (VParts ps)) \<le> 2500"
    by (simp add: PlaceableLength_def MAX_PLACEABLE_LENGTH_def)
next
  assume "\<forall>qs. part \<noteq> VParts qs"
  then show "place c env part result = (result @ isolate c [part], env)"
    by (cases part) (simp_all add: place_def place_parts_def isolate_def)
qed

theorem Placeable_length_bound_witness:
  "MAX_PLACEABLE_LENGTH < PlaceableLength (en_US [] False) [VStr long_text] \<and>
   place (en_US [] False) \<lparr>errors = [], dirty = {}\<rparr> (VParts [VStr long_text]) [] =
     ([FluentNone None], \<lparr>errors = [too_long 2501], dirty = {}\<rparr>) \<and>
   PlaceableLength (en_US [] False) [VStr (asc ''Foo'')] \<le> MAX_PLACEABLE_LENGTH \<and>
   is_text (VStr (asc ''Foo'')) \<and>
   place (en_US [] False) \<lparr>errors = [], dirty = {}\<rparr> (VParts [VStr (asc ''Foo'')]) [] =
     ([VStr (asc ''Foo'')], \<lparr>errors = [], dirty = {}\<rparr>) \<and>
   length (valueOf (en_US [] False) (VParts [VStr (asc ''Foo'')])) \<le> 2500 \<and>
   place (en_US [] False) \<lparr>errors = [], dirty = {}\<rparr> (VStr long_text) [] =
     ([VStr long_text], \<lparr>errors = [], dirty = {}\<rparr>)"
proof -
  have a: "PlaceableLength (en_US [] False) [VStr long_text] = 2501"
    by (simp add: PlaceableLength_def length_long_text)
  have b: "PlaceableLength (en_US [] False) [VStr (asc ''Foo'')] = 3"
    by (simp add: PlaceableLength_def asc_def)
  have i: "isolate (en_US [] False) ps = ps" for ps
    by (simp add: isolate_def en_US_def)
  show ?thesis
    using Placeable_length_bound [where c = "en_US [] False" and ps = "[VStr long_text]"
        and env = "\<lparr>errors = [], dirty = {}\<rparr>" and result = "[]" and part = "VStr long_text"]
      Placeable_length_bound [where c = "en_US [] False" and ps = "[VStr (asc ''Foo'')]"
        and env = "\<lparr>errors = [], dirty = {}\<rparr>" and result = "[]" and part = "VStr long_text"]
    by (simp add: a b i MAX_PLACEABLE_LENGTH_def)
qed

subsection \<open>Isolation marks\<close>

lemma bind_Inr_iff:
  "bind m f = Some (Inr r) \<longleftrightarrow> (\<exists>x e. m = Some (Inr (x, e)) \<and> f x e = Some (Inr r))"
  by (cases "(m, f)" rule: bind.cases) auto

lemma PatternLoop_expr:
  "\<not> (\<exists>s. elem = Str s) \<Longrightarrow>
   PatternLoop T c env (elem # rest) result =
     bind (T env elem)
       (\<lambda>part env'. case place c env' part result of
                       (result', env'') \<Rightarrow> PatternLoop T c env'' rest result')"
  by (auto split: node.splits "value.splits")

lemma place_isolate:
  "place c env part result =
     (result @ isolate c (fst (place_parts c env part)), snd (place_parts c env part))"
  by (simp add: place_def isolate_def split: prod.splits)

lemma PatternLoop_chunks:
  "PatternLoop T c env elems result = Some (Inr (r, env')) \<Longrightarrow>
   \<exists>chunks. list_all2 (\<lambda>elem chunk. case elem of
                                  Val (VStr s) \<Rightarrow> chunk = [VStr s]
                                | _ \<Rightarrow> (\<exists>ps. chunk = isolate c ps)) elems chunks \<and>
            r = result @ concat chunks"
proof (induction elems arbitrary: env result)
  case Nil
  then show ?case by (simp add: ret_def)
next
  case (Cons elem rest)
  show ?case
  proof (cases "\<exists>s. elem = Val (VStr s)")
    case True
    then obtain s where s: "elem = Val (VStr s)" by blast
    with Cons.prems have "PatternLoop T c env rest (result @ [VStr s]) = Some (Inr (r, env'))"
      by simp
    from Cons.IH [OF this] obtain chunks where
      "list_all2 (\<lambda>elem chunk. case elem of
                                  Val (VStr s) \<Rightarrow> chunk = [VStr s]
                                | _ \<Rightarrow> (\<exists>ps. chunk = isolate c ps)) rest chunks"
      "r = (result @ [VStr s]) @ concat chunks"
      by blast
    then have "list_all2 (\<lambda>elem chunk. case elem of
                                  Val (VStr s) \<Rightarrow> chunk = [VStr s]
                                | _ \<Rightarrow> (\<exists>ps. chunk = isolate c ps)) (elem # rest) ([VStr s] # chunks) \<and>
            r = result @ concat ([VStr s] # chunks)"
      using s by simp
    then show ?thesis by blast
  next
    case False
    from Cons.prems have "bind (T env elem)
            (\<lambda>part env'. case place c env' part result of
                            (result', env'') \<Rightarrow> PatternLoop T c env'' rest result')
          = Some (Inr (r, env'))"
      by (simp only: PatternLoop_expr [OF False])
    then obtain part env1 where t: "T env elem = Some (Inr (part, env1))"
      and step: "(case place c env1 part result of
                   (result', env'') \<Rightarrow> PatternLoop T c env'' rest result') = Some (Inr (r, env'))"
      unfolding bind_Inr_iff by blast
    define ps where "ps = fst (place_parts c env1 part)"
    define env2 where "env2 = snd (place_parts c env1 part)"
    from step
    have "PatternLoop T c env2 rest (result @ isolate c ps) = Some (Inr (r, env'))"
      by (simp add: place_isolate ps_def env2_def)
    from Cons.IH [OF this] obtain chunks where
      "list_all2 (\<lambda>elem chunk. case elem of
                                  Val (VStr s) \<Rightarrow> chunk = [VStr s]
                                | _ \<Rightarrow> (\<exists>ps. chunk = isolate c ps)) rest chunks"
      "r = (result @ isolate c ps) @ concat chunks"
      by blast
    moreover have "case elem of Val (VStr s) \<Rightarrow> isolate c ps = [VStr s]
                    | _ \<Rightarrow> (\<exists>qs. isolate c ps = isolate c qs)"
      using False by (auto split: node.splits "value.splits")
    ultimately have "list_all2 (\<lambda>elem chunk. case elem of
                                  Val (VStr s) \<Rightarrow> chunk = [VStr s]
                                | _ \<Rightarrow> (\<exists>ps. chunk = isolate c ps)) (elem # rest) (isolate c ps # chunks) \<and>
            r = result @ concat (isolate c ps # chunks)"
      by simp
    then show ?thesis by blast
  qed
qed

lemma PatternLoop_literals:
  "PatternLoop T c env (map Str ss) result = ret (result @ map VStr ss) env"
  by (induction ss arbitrary: result) simp_all


text \<open>
  C7. With \<open>useIsolating\<close> set, the result of a pattern is the concatenation of one
  chunk per element, in order: a literal fragment gives itself, raw, and an expression
  gives FSI, the parts of the placeable, PDI. A pattern of literal fragments only
  resolves to exactly those fragments, whatever the flag, so its formatted string is
  their concatenation: neither mark occurs in it unless a fragment itself has it.
\<close>

theorem Isolation_bracketing:
  "(useIsolating c \<longrightarrow> Type (Suc n) c as env (Arr i elems) = Some (Inr (VParts r, env')) \<longrightarrow>
      (\<exists>chunks. list_all2 (\<lambda>elem chunk. case elem of
                                     Val (VStr s) \<Rightarrow> chunk = [VStr s]
                                   | _ \<Rightarrow> (\<exists>ps. chunk = [VStr FSI] @ ps @ [VStr PDI]))
                    elems chunks \<and>
                r = concat chunks)) \<and>
   (i \<notin> dirty env \<longrightarrow>
      Type (Suc n) c as env (Arr i (map Str ss)) = ret (VParts (map VStr ss)) env \<and>
      valueOf c (VParts (map VStr ss)) = concat ss \<and>
      (hd FSI \<notin> set (concat ss) \<and> hd PDI \<notin> set (concat ss) \<longrightarrow>
         hd FSI \<notin> set (valueOf c (VParts (map VStr ss))) \<and>
         hd PDI \<notin> set (valueOf c (VParts (map VStr ss)))))"
proof (intro conjI impI)
  assume iso: "useIsolating c"
    and res: "Type (Suc n) c as env (Arr i elems) = Some (Inr (VParts r, env'))"
  from res have "\<exists>env''. PatternLoop (Type n c as) c (env\<lparr>dirty := insert i (dirty env)\<rparr>) elems []
      = Some (Inr (r, env''))"
    by (auto simp: Type.simps Type_body_def Pattern_def ret_def bind_Inr_iff split: if_splits)
  then obtain env'' where pl:
    "PatternLoop (Type n c as) c (env\<lparr>dirty := insert i (dirty env)\<rparr>) elems [] = Some (Inr (r, env''))"
    by blast
  from iso have eq: "isolate c = (\<lambda>ps. [VStr FSI] @ ps @ [VStr PDI])"
    by (simp add: isolate_def fun_eq_iff)
  show "\<exists>chunks. list_all2 (\<lambda>elem chunk. case elem of
                                     Val (VStr s) \<Rightarrow> chunk = [VStr s]
                                   | _ \<Rightarrow> (\<exists>ps. chunk = [VStr FSI] @ ps @ [VStr PDI]))
                    elems chunks \<and>
                r = concat chunks"
    using PatternLoop_chunks [OF pl] unfolding eq by simp
next
  assume "i \<notin> dirty env"
  then show "Type (Suc n) c as env (Arr i (map Str ss)) = ret (VParts (map VStr ss)) env"
    by (simp add: Type.simps Type_body_def Pattern_def PatternLoop_literals ret_def)
next
  show eq: "valueOf c (VParts (map VStr ss)) = concat ss"
    by (simp add: comp_def)
  assume "hd FSI \<notin> set (concat ss) \<and> hd PDI \<notin> set (concat ss)"
  with eq show "hd FSI \<notin> set (valueOf c (VParts (map VStr ss)))"
    and "hd PDI \<notin> set (valueOf c (VParts (map VStr ss)))"
    by simp_all
qed

theorem Isolation_bracketing_witness:
  "useIsolating (en_US [] True) \<and>
   Type 2 (en_US [] True) (Some arg_bag) \<lparr>errors = [], dirty = {}\<rparr>
       (Arr 1 [Str (asc ''Hi ''), Ext (asc ''x'')]) =
     Some (Inr (VParts [VStr (asc ''Hi ''), VStr FSI, VStr (asc ''X''), VStr PDI],
                \<lparr>errors = [], dirty = {}\<rparr>)) \<and>
   (\<exists>chunks. list_all2 (\<lambda>elem chunk. case elem of
                                  Val (VStr s) \<Rightarrow> chunk = [VStr s]
                                | _ \<Rightarrow> (\<exists>ps. chunk = [VStr FSI] @ ps @ [VStr PDI]))
                 [Str (asc ''Hi ''), Ext (asc ''x'')] chunks \<and>
             [VStr (asc ''Hi ''), VStr FSI, VStr (asc ''X''), VStr PDI] = concat chunks) \<and>
   (1::nat) \<notin> dirty \<lparr>errors = [], dirty = {}\<rparr> \<and>
   Type 2 (en_US [] True) (Some arg_bag) \<lparr>errors = [], dirty = {}\<rparr> (Arr 1 (map Str [asc ''Foo''])) =
     ret (VParts [VStr (asc ''Foo'')]) \<lparr>errors = [], dirty = {}\<rparr> \<and>
   hd FSI \<notin> set (valueOf (en_US [] True) (VParts (map VStr [asc ''Foo''])))"
proof -
  have iso: "useIsolating (en_US [] True)"
    by (simp add: en_US_def)
  have two: "(2::nat) = Suc (Suc 0)"
    by simp
  have res: "Type (Suc (Suc 0)) (en_US [] True) (Some arg_bag) \<lparr>errors = [], dirty = {}\<rparr>
       (Arr 1 [Str (asc ''Hi ''), Ext (asc ''x'')]) =
     Some (Inr (VParts [VStr (asc ''Hi ''), VStr FSI, VStr (asc ''X''), VStr PDI],
                \<lparr>errors = [], dirty = {}\<rparr>))"
    by (simp add: Type.simps Type_body_def Pattern_def ExternalArgument_def arg_bag_def place_def
          place_parts_def en_US_def ret_def)
  have lit: "hd FSI \<notin> set (concat [asc ''Foo'']) \<and> hd PDI \<notin> set (concat [asc ''Foo''])"
    by (simp add: FSI_def PDI_def asc_def)
  show ?thesis
    using Isolation_bracketing [where c = "en_US [] True" and n = "Suc 0" and as = "Some arg_bag"
        and env = "\<lparr>errors = [], dirty = {}\<rparr>" and i = 1
        and elems = "[Str (asc ''Hi ''), Ext (asc ''x'')]"
        and r = "[VStr (asc ''Hi ''), VStr FSI, VStr (asc ''X''), VStr PDI]"
        and env' = "\<lparr>errors = [], dirty = {}\<rparr>" and ss = "[asc ''Foo'']"]
      iso res lit
    unfolding two by simp
qed

subsection \<open>The default variant\<close>







subsection \<open>The dirty set is restored\<close>

lemma keeps_dirtyD: "keeps_dirty T \<Longrightarrow> T env x = Some (Inr (v, env')) \<Longrightarrow> dirty env' = dirty env"
  by (simp add: keeps_dirty_def)

lemma dirty_push_error [simp]: "dirty (push_error e env) = dirty env"
  by (simp add: push_error_def)

lemma ret_Inr_iff [simp]: "ret x env = Some (Inr (y, env')) \<longleftrightarrow> x = y \<and> env = env'"
  by (auto simp: ret_def)

lemma throw_neq_Inr [simp]: "throw e \<noteq> Some (Inr r)"
  by (simp add: throw_def)

lemma dirty_place: "place c env part result = (r, env') \<Longrightarrow> dirty env' = dirty env"
  by (auto simp: place_def place_parts_def Let_def split: "value.splits" if_splits prod.splits)

lemma dirty_DefaultMember: "DefaultMember env vars def = (m, env') \<Longrightarrow> dirty env' = dirty env"
  by (auto simp: DefaultMember_def split: if_splits)

lemma dirty_MessageReference: "MessageReference c env name = (m, env') \<Longrightarrow> dirty env' = dirty env"
  by (auto simp: MessageReference_def split: option.splits if_splits)

lemma dirty_ExternalArgument: "ExternalArgument as env name = (v, env') \<Longrightarrow> dirty env' = dirty env"
  by (auto simp: ExternalArgument_def split: option.splits jsarg.splits)

lemma dirty_FunctionReference: "FunctionReference c env name = (v, env') \<Longrightarrow> dirty env' = dirty env"
  by (auto simp: FunctionReference_def split: option.splits callable.splits)

lemma dirty_PatternLoop:
  assumes T: "keeps_dirty T"
  shows "PatternLoop T c env elems result = Some (Inr (r, env')) \<Longrightarrow> dirty env' = dirty env"
proof (induction elems arbitrary: env result)
  case Nil
  then show ?case by simp
next
  case (Cons elem rest)
  show ?case
  proof (cases "\<exists>s. elem = Str s")
    case True
    with Cons show ?thesis by auto
  next
    case False
    from Cons.prems obtain part env1 where t: "T env elem = Some (Inr (part, env1))"
      and step: "(case place c env1 part result of
                   (result', env'') \<Rightarrow> PatternLoop T c env'' rest result') = Some (Inr (r, env'))"
      unfolding PatternLoop_expr [OF False] bind_Inr_iff by blast
    obtain r2 env2 where p: "place c env1 part result = (r2, env2)"
      by (cases "place c env1 part result")
    with step have "PatternLoop T c env2 rest r2 = Some (Inr (r, env'))"
      by simp
    from Cons.IH [OF this] dirty_place [OF p] keeps_dirtyD [OF T t] show ?thesis
      by simp
  qed
qed

lemma dirty_Pattern:
  assumes T: "keeps_dirty T"
  shows "Pattern T c env pid ptn = Some (Inr (v, env')) \<Longrightarrow> dirty env' = dirty env"
  by (auto simp: Pattern_def bind_Inr_iff split: option.splits if_splits
      dest!: dirty_PatternLoop [OF T])

lemma dirty_VariantLoop:
  assumes T: "keeps_dirty T"
  shows "VariantLoop T c env keyword vars = Some (Inr (r, env')) \<Longrightarrow> dirty env' = dirty env"
proof (induction vars arbitrary: env)
  case Nil
  then show ?case by simp
next
  case (Cons variant rest)
  from Cons.prems obtain k env1 where t: "T env (fst variant) = Some (Inr (k, env1))"
    and step: "(case match c keyword k of
            Inl e \<Rightarrow> throw e
          | Inr b \<Rightarrow>
              if b then ret (Some (Variant (fst variant) (snd variant))) env1
              else VariantLoop T c env1 keyword rest) = Some (Inr (r, env'))"
    by (auto simp: bind_Inr_iff)
  from step have "env' = env1 \<or> VariantLoop T c env1 keyword rest = Some (Inr (r, env'))"
    by (auto split: sum.splits if_splits)
  with Cons.IH keeps_dirtyD [OF T t] show ?case
    by auto
qed

lemma dirty_SelectLoop:
  assumes T: "keeps_dirty T"
  shows "SelectLoop T c env selector vars = Some (Inr (r, env')) \<Longrightarrow> dirty env' = dirty env"
proof (induction vars arbitrary: env)
  case Nil
  then show ?case by simp
next
  case (Cons variant rest)
  from Cons.prems obtain k env1 where t: "T env (fst variant) = Some (Inr (k, env1))"
    and step: "(if keyCanMatch k
          then (case match c k selector of
                  Inl e \<Rightarrow> throw e
                | Inr b \<Rightarrow>
                    if b then ret (Some (Variant (fst variant) (snd variant))) env1
                    else SelectLoop T c env1 selector rest)
          else SelectLoop T c env1 selector rest) = Some (Inr (r, env'))"
    by (auto simp: bind_Inr_iff)
  from step have "env' = env1 \<or> SelectLoop T c env1 selector rest = Some (Inr (r, env'))"
    by (auto split: sum.splits if_splits)
  with Cons.IH keeps_dirtyD [OF T t] show ?case
    by auto
qed

lemma dirty_CallLoop:
  assumes T: "keeps_dirty T"
  shows "CallLoop T env cargs posargs keyargs = Some (Inr (r, env')) \<Longrightarrow> dirty env' = dirty env"
proof (induction cargs arbitrary: env posargs keyargs)
  case Nil
  then show ?case by simp
next
  case (Cons arg rest)
  from Cons.prems obtain y x env1 p k where t: "T env y = Some (Inr (x, env1))"
    and step: "CallLoop T env1 rest p k = Some (Inr (r, env'))"
    by (cases arg) (auto simp: bind_Inr_iff)
  from Cons.IH [OF step] keeps_dirtyD [OF T t] show ?case
    by simp
qed

lemma dirty_fallback:
  assumes T: "keeps_dirty T"
    and res: "fallback T e env message = Some (Inr (r, env'))"
  shows "dirty env' = dirty env"
proof -
  from res obtain v where "T (push_error e env) message = Some (Inr (v, env'))"
    by (auto simp: fallback_def bind_Inr_iff)
  from keeps_dirtyD [OF T this] show ?thesis
    by simp
qed

lemma dirty_VariantExpression:
  assumes T: "keeps_dirty T"
    and res: "VariantExpression T c env name key = Some (Inr (r, env'))"
  shows "dirty env' = dirty env"
proof -
  obtain message env1 where m: "MessageReference c env name = (message, env1)"
    by (cases "MessageReference c env name")
  note d1 = dirty_MessageReference [OF m]
  show ?thesis
  proof (cases "is_FluentNone message")
    case True
    with res m d1 show ?thesis
      by (simp add: VariantExpression_def)
  next
    case False
    with res m have "bind (T env1 key)
              (\<lambda>keyword env2.
                 case isVariantList (val_of message) of
                   Inl e \<Rightarrow> throw e
                 | Inr None \<Rightarrow>
                     fallback T (ReferenceError (asc ''Unknown variant: '' @ valueOf c keyword))
                       env2 message
                 | Inr (Some vars) \<Rightarrow>
                     bind (VariantLoop T c env2 keyword vars)
                       (\<lambda>found env3.
                          case found of
                            Some variant \<Rightarrow> ret variant env3
                          | None \<Rightarrow>
                              fallback T
                                (ReferenceError (asc ''Unknown variant: '' @ valueOf c keyword))
                                env3 message)) = Some (Inr (r, env'))"
      by (simp add: VariantExpression_def)
    then obtain keyword env2 where t: "T env1 key = Some (Inr (keyword, env2))"
      and step: "(case isVariantList (val_of message) of
                   Inl e \<Rightarrow> throw e
                 | Inr None \<Rightarrow>
                     fallback T (ReferenceError (asc ''Unknown variant: '' @ valueOf c keyword))
                       env2 message
                 | Inr (Some vars) \<Rightarrow>
                     bind (VariantLoop T c env2 keyword vars)
                       (\<lambda>found env3.
                          case found of
                            Some variant \<Rightarrow> ret variant env3
                          | None \<Rightarrow>
                              fallback T
                                (ReferenceError (asc ''Unknown variant: '' @ valueOf c keyword))
                                env3 message)) = Some (Inr (r, env'))"
      unfolding bind_Inr_iff by blast
    note d2 = keeps_dirtyD [OF T t]
    show ?thesis
    proof (cases "isVariantList (val_of message)")
      case (Inl e)
      with step show ?thesis by simp
    next
      case (Inr ov)
      show ?thesis
      proof (cases ov)
        case None
        with Inr step have "fallback T (ReferenceError (asc ''Unknown variant: '' @ valueOf c keyword))
                       env2 message = Some (Inr (r, env'))"
          by simp
        from dirty_fallback [OF T this] d1 d2 show ?thesis
          by simp
      next
        case (Some vars)
        with Inr step obtain found env3 where
          l: "VariantLoop T c env2 keyword vars = Some (Inr (found, env3))"
          and step2: "(case found of
                            Some variant \<Rightarrow> ret variant env3
                          | None \<Rightarrow>
                              fallback T
                                (ReferenceError (asc ''Unknown variant: '' @ valueOf c keyword))
                                env3 message) = Some (Inr (r, env'))"
          by (simp add: bind_Inr_iff) blast
        note d3 = dirty_VariantLoop [OF T l]
        from step2 have "dirty env' = dirty env3"
          by (cases found) (auto dest: dirty_fallback [OF T])
        with d1 d2 d3 show ?thesis by simp
      qed
    qed
  qed
qed

lemma dirty_AttributeExpression:
  assumes T: "keeps_dirty T"
  shows "AttributeExpression T c env name a = Some (Inr (r, env')) \<Longrightarrow> dirty env' = dirty env"
  by (auto simp: AttributeExpression_def
      split: prod.splits if_splits option.splits
      dest!: dirty_MessageReference dirty_fallback [OF T])

lemma dirty_SelectExpression:
  assumes T: "keeps_dirty T"
    and res: "SelectExpression T c env exp' vars def = Some (Inr (r, env'))"
  shows "dirty env' = dirty env"
proof (cases exp')
  case None
  with res show ?thesis
    by (auto simp: SelectExpression_def split: prod.splits dest: dirty_DefaultMember)
next
  case (Some e)
  with res obtain selector env1 where t: "T env e = Some (Inr (selector, env1))"
    and step: "(if is_FluentNone (Val selector)
               then (case DefaultMember env1 vars def of (m, env') \<Rightarrow> ret m env')
               else
                 bind (SelectLoop T c env1 selector vars)
                   (\<lambda>found env2.
                      case found of
                        Some variant \<Rightarrow> ret variant env2
                      | None \<Rightarrow> (case DefaultMember env2 vars def of (m, env') \<Rightarrow> ret m env')))
              = Some (Inr (r, env'))"
    by (auto simp: SelectExpression_def bind_Inr_iff)
  note d1 = keeps_dirtyD [OF T t]
  show ?thesis
  proof (cases "is_FluentNone (Val selector)")
    case True
    with step d1 show ?thesis
      by (auto split: prod.splits dest: dirty_DefaultMember)
  next
    case False
    with step obtain found env2 where l: "SelectLoop T c env1 selector vars = Some (Inr (found, env2))"
      and step2: "(case found of
                        Some variant \<Rightarrow> ret variant env2
                      | None \<Rightarrow> (case DefaultMember env2 vars def of (m, env') \<Rightarrow> ret m env'))
                  = Some (Inr (r, env'))"
      by (auto simp: bind_Inr_iff)
    note d2 = dirty_SelectLoop [OF T l]
    from step2 have "dirty env' = dirty env2"
      by (cases found) (auto split: prod.splits dest: dirty_DefaultMember)
    with d1 d2 show ?thesis by simp
  qed
qed

lemma dirty_CallExpression:
  assumes T: "keeps_dirty T"
    and res: "CallExpression T c env f cargs = Some (Inr (r, env'))"
  shows "dirty env' = dirty env"
proof -
  obtain callee env1 where fr: "FunctionReference c env f = (callee, env1)"
    by (cases "FunctionReference c env f")
  note d1 = dirty_FunctionReference [OF fr]
  show ?thesis
  proof (cases "\<exists>h. callee = FluentNone h")
    case True
    with res fr d1 show ?thesis
      by (auto simp: CallExpression_def)
  next
    case False
    then have "CallExpression T c env f cargs =
        bind (CallLoop T env1 cargs [] Map.empty)
                 (\<lambda>pk env2. case call_func c f (fst pk) (snd pk) of
                               Inl e \<Rightarrow> throw e
                             | Inr v \<Rightarrow> ret v env2)"
      using fr by (cases callee) (simp_all add: CallExpression_def)
    with res have "bind (CallLoop T env1 cargs [] Map.empty)
                 (\<lambda>pk env2. case call_func c f (fst pk) (snd pk) of
                               Inl e \<Rightarrow> throw e
                             | Inr v \<Rightarrow> ret v env2) = Some (Inr (r, env'))"
      by simp
    then obtain pk env2 where l: "CallLoop T env1 cargs [] Map.empty = Some (Inr (pk, env2))"
      and step: "(case call_func c f (fst pk) (snd pk) of
                               Inl e \<Rightarrow> throw e
                             | Inr v \<Rightarrow> ret v env2) = Some (Inr (r, env'))"
      unfolding bind_Inr_iff by blast
    from step have "env' = env2"
      by (cases "call_func c f (fst pk) (snd pk)") simp_all
    with dirty_CallLoop [OF T l] d1 show ?thesis
      by simp
  qed
qed

lemma dirty_Type_body:
  assumes T: "keeps_dirty T"
    and res: "Type_body T c as env expr = Some (Inr (v, env'))"
  shows "dirty env' = dirty env"
proof (cases expr)
  case (Val w)
  with res show ?thesis
    by (cases w) (auto simp: Type_body_def dest: dirty_Pattern [OF T])
next
  case (Arr i elems)
  with res show ?thesis
    by (auto simp: Type_body_def dest: dirty_Pattern [OF T])
next
  case (Ext name)
  with res show ?thesis
    by (auto simp: Type_body_def split: prod.splits dest: dirty_ExternalArgument)
next
  case (Fun name)
  with res show ?thesis
    by (auto simp: Type_body_def split: prod.splits dest: dirty_FunctionReference)
next
  case (Call f cargs)
  with res show ?thesis
    by (auto simp: Type_body_def dest: dirty_CallExpression [OF T])
next
  case (Ref name)
  with res show ?thesis
    by (auto simp: Type_body_def split: prod.splits
        dest!: dirty_MessageReference keeps_dirtyD [OF T])
next
  case (Attr name a)
  with res obtain x e where "AttributeExpression T c env name a = Some (Inr (x, e))"
    and "T e x = Some (Inr (v, env'))"
    by (auto simp: Type_body_def bind_Inr_iff)
  with dirty_AttributeExpression [OF T] keeps_dirtyD [OF T] show ?thesis
    by fastforce
next
  case (Var name key)
  with res obtain x e where "VariantExpression T c env name key = Some (Inr (x, e))"
    and "T e x = Some (Inr (v, env'))"
    by (auto simp: Type_body_def bind_Inr_iff)
  with dirty_VariantExpression [OF T] keeps_dirtyD [OF T] show ?thesis
    by fastforce
next
  case (Sel exp' vars def)
  with res obtain x e where "SelectExpression T c env exp' vars def = Some (Inr (x, e))"
    and "T e x = Some (Inr (v, env'))"
    by (auto simp: Type_body_def bind_Inr_iff)
  with dirty_SelectExpression [OF T] keeps_dirtyD [OF T] show ?thesis
    by fastforce
next
  case (Variant k w)
  with res show ?thesis
    by (auto simp: Type_body_def dest: keeps_dirtyD [OF T])
next
  case (Message ov ats)
  with res show ?thesis
    by (cases ov) (auto simp: Type_body_def dest: keeps_dirtyD [OF T])
qed (use res in \<open>auto simp: Type_body_def\<close>)

lemma keeps_dirty_Type: "keeps_dirty (Type n c as)"
proof (induction n)
  case 0
  then show ?case by (simp add: keeps_dirty_def Type.simps)
next
  case (Suc n)
  show ?case
    unfolding keeps_dirty_def Type.simps
    using dirty_Type_body [OF Suc] by blast
qed


text \<open>
  C10. Whenever \<open>Type\<close>, and so \<open>Pattern\<close>, returns, the dirty set is the one it was
  called with, whatever errors were recorded on the way; in particular a pattern that
  was not in the set when it was entered is not in it after the call. So the two
  references to \<open>foo\<close> in \<open>{ foo } { foo }\<close> both resolve, with no error, with any fuel
  from 5 on.
\<close>

theorem Pattern_restores_dirty:
  "(Type n c as env x = Some (Inr (v, env')) \<longrightarrow> dirty env' = dirty env) \<and>
   (i \<notin> dirty env \<and> Type n c as env (Arr i ptn) = Some (Inr (v, env')) \<longrightarrow> i \<notin> dirty env') \<and>
   resolve (5 + m) (en_US [(asc ''foo'', foo_pattern)] False) (Some arg_bag) siblings [] =
     ret (VParts [VStr (asc ''Foo ''), VStr (asc ''X''), VStr (asc '' ''),
                  VStr (asc ''Foo ''), VStr (asc ''X'')])
       \<lparr>errors = [], dirty = {}\<rparr>"
proof (intro conjI impI)
  assume "Type n c as env x = Some (Inr (v, env'))"
  then show "dirty env' = dirty env"
    by (rule keeps_dirtyD [OF keeps_dirty_Type])
next
  assume "i \<notin> dirty env \<and> Type n c as env (Arr i ptn) = Some (Inr (v, env'))"
  then show "i \<notin> dirty env'"
    using keeps_dirtyD [OF keeps_dirty_Type, of n c as env "Arr i ptn" v env'] by simp
next
  have fuel: "5 + m = Suc (Suc (Suc (Suc (Suc m))))"
    by simp
  show "resolve (5 + m) (en_US [(asc ''foo'', foo_pattern)] False) (Some arg_bag) siblings [] =
     ret (VParts [VStr (asc ''Foo ''), VStr (asc ''X''), VStr (asc '' ''),
                  VStr (asc ''Foo ''), VStr (asc ''X'')])
       \<lparr>errors = [], dirty = {}\<rparr>"
    unfolding fuel
    by (simp add: resolve_def siblings_def foo_pattern_def en_US_def arg_bag_def
          Type.simps Type_body_def Pattern_def MessageReference_def ExternalArgument_def
          ret_def place_def place_parts_def PlaceableLength_def MAX_PLACEABLE_LENGTH_def
          asc_def)
qed

theorem Pattern_restores_dirty_witness:
  "Type 5 (en_US [(asc ''foo'', foo_pattern)] False) (Some arg_bag) \<lparr>errors = [], dirty = {7}\<rparr>
       siblings =
     Some (Inr (VParts [VStr (asc ''Foo ''), VStr (asc ''X''), VStr (asc '' ''),
                        VStr (asc ''Foo ''), VStr (asc ''X'')],
                \<lparr>errors = [], dirty = {7}\<rparr>)) \<and>
   dirty \<lparr>errors = [], dirty = {7::nat}\<rparr> = dirty \<lparr>errors = [], dirty = {7::nat}\<rparr> \<and>
   (2::nat) \<notin> dirty \<lparr>errors = [], dirty = {7}\<rparr>"
proof -
  have fuel: "(5::nat) = Suc (Suc (Suc (Suc (Suc 0))))"
    by simp
  have run: "Type 5 (en_US [(asc ''foo'', foo_pattern)] False) (Some arg_bag)
       \<lparr>errors = [], dirty = {7}\<rparr> siblings =
     Some (Inr (VParts [VStr (asc ''Foo ''), VStr (asc ''X''), VStr (asc '' ''),
                        VStr (asc ''Foo ''), VStr (asc ''X'')],
                \<lparr>errors = [], dirty = {7}\<rparr>))"
    unfolding fuel
    by (simp add: siblings_def foo_pattern_def en_US_def arg_bag_def
          Type.simps Type_body_def Pattern_def MessageReference_def ExternalArgument_def
          ret_def place_def place_parts_def PlaceableLength_def MAX_PLACEABLE_LENGTH_def
          asc_def)
  show ?thesis
    using Pattern_restores_dirty [where n = 5 and c = "en_US [(asc ''foo'', foo_pattern)] False"
        and as = "Some arg_bag" and env = "\<lparr>errors = [], dirty = {7}\<rparr>" and x = siblings
        and v = "VParts [VStr (asc ''Foo ''), VStr (asc ''X''), VStr (asc '' ''),
                        VStr (asc ''Foo ''), VStr (asc ''X'')]"
        and env' = "\<lparr>errors = [], dirty = {7}\<rparr>" and i = 2 and m = 0
        and ptn = "[Ref (asc ''foo''), Str (asc '' ''), Ref (asc ''foo'')]"]
      run
    by simp
qed

subsection \<open>The error list is only appended to\<close>


lemma dirty_pre [simp]: "dirty (pre es env) = dirty env"
  by (simp add: pre_def)

lemma errors_pre [simp]: "errors (pre es env) = es @ errors env"
  by (simp add: pre_def)


lemma dirty_update_pre [simp]: "(pre es env)\<lparr>dirty := d\<rparr> = pre es (env\<lparr>dirty := d\<rparr>)"
  by (simp add: pre_def)

lemma lift_ret [simp]: "lift es (ret x env) = ret x (pre es env)"
  by (simp add: ret_def)

lemma lift_throw [simp]: "lift es (throw e) = throw e"
  by (simp add: throw_def)


























end
